theory Spec2Isabelle
  imports
    Main
    "HOL-Library.Char_ord"
    "HOL-Library.List_Lexorder"
    "HOL-Library.Product_Lexorder"
    "HOL-Library.Multiset"
begin

section \<open>GCP project cleanup report (gcp_project_cleanup.py)\<close>

text \<open>
  The script fetches three listings (projects, IAM policies carrying the owner role,
  inactivity recommendations), joins them in memory, sorts the project records and
  prints a fixed-width table. The three API responses are inputs of the model. A
  Python \<open>str\<close> is a \<open>string\<close> with one \<open>char\<close> per character (so the model
  covers the code points below 256), compared character by character as Python compares
  code points.
\<close>

subsection \<open>Exceptions and results\<close>

text \<open>
  \<open>ApiError\<close> stands for whatever a Google client call raises (authentication,
  transport, malformed response); \<open>ValueError\<close> and \<open>KeyError\<close> are the Python
  built-ins the script itself can run into.
\<close>

datatype error = ApiError string | ValueError | KeyError

definition bind :: "error + 'a \<Rightarrow> ('a \<Rightarrow> error + 'b) \<Rightarrow> error + 'b" where
  "bind r f = (case r of Inl e \<Rightarrow> Inl e | Inr v \<Rightarrow> f v)"

text \<open>Evaluating \<open>f x\<close> for every \<open>x\<close> of a sequence, left to right, stopping at the first raise.\<close>

fun for_each :: "('a \<Rightarrow> error + 'b) \<Rightarrow> 'a list \<Rightarrow> error + 'b list" where
  "for_each f [] = Inr []"
| "for_each f (x # xs) = bind (f x) (\<lambda>y. bind (for_each f xs) (\<lambda>ys. Inr (y # ys)))"

text \<open>\<open>d[k]\<close> on a dict: KeyError when the key is absent.\<close>

definition getitem :: "('k \<rightharpoonup> 'v) \<Rightarrow> 'k \<Rightarrow> error + 'v" where
  "getitem d k = (case d k of None \<Rightarrow> Inl KeyError | Some v \<Rightarrow> Inr v)"

text \<open>\<open>max(iterable)\<close>: ValueError on an empty iterable.\<close>

fun max_of :: "nat list \<Rightarrow> error + nat" where
  "max_of [] = Inl ValueError"
| "max_of (x # xs) = Inr (fold max xs x)"

subsection \<open>The string methods the script uses\<close>

definition startswith :: "string \<Rightarrow> string \<Rightarrow> bool" where
  "startswith pre s = (take (length pre) s = pre)"

definition removeprefix :: "string \<Rightarrow> string \<Rightarrow> string" where
  "removeprefix pre s = (if startswith pre s then drop (length pre) s else s)"

text \<open>\<open>sub in s\<close>.\<close>

fun str_contains :: "string \<Rightarrow> string \<Rightarrow> bool" where
  "str_contains sub [] = (sub = [])"
| "str_contains sub (c # cs) = (startswith sub (c # cs) \<or> str_contains sub cs)"

definition cons_first :: "char \<Rightarrow> string list \<Rightarrow> string list" where
  "cons_first c pieces = (case pieces of [] \<Rightarrow> [[c]] | p # ps \<Rightarrow> (c # p) # ps)"

text \<open>
  \<open>s.split(sep)\<close> for a non-empty separator: the occurrences of \<open>sep\<close> are found from
  the left and do not overlap; there is always at least one piece. (Python raises on an
  empty separator; the script only passes the literals \<open>"/projects/"\<close>, \<open>"/"\<close> and
  \<open>"@"\<close>.)
\<close>

fun str_split :: "string \<Rightarrow> string \<Rightarrow> string list" where
  "str_split sep [] = [[]]"
| "str_split sep (c # cs) =
     (if sep \<noteq> [] \<and> startswith sep (c # cs)
      then [] # str_split sep (drop (length sep - 1) cs)
      else cons_first c (str_split sep cs))"

text \<open>
  \<open>s.rsplit(sep, 1)\<close>: one split at the rightmost occurrence of \<open>sep\<close>, or the whole
  string as the only piece when there is none.
\<close>

definition str_rsplit1 :: "string \<Rightarrow> string \<Rightarrow> string list" where
  "str_rsplit1 sep s =
     (case find (\<lambda>i. take (length sep) (drop i s) = sep)
                (rev [0 ..< Suc (length s - length sep)]) of
        None \<Rightarrow> [s]
      | Some i \<Rightarrow> [take i s, drop (i + length sep) s])"

text \<open>\<open>sep.join(xs)\<close>.\<close>

fun str_join :: "string \<Rightarrow> string list \<Rightarrow> string" where
  "str_join sep [] = []"
| "str_join sep [x] = x"
| "str_join sep (x # y # ys) = x @ sep @ str_join sep (y # ys)"

text \<open>\<open>s.ljust(w)\<close>: padded with spaces on the right up to \<open>w\<close> characters, never cut.\<close>

definition str_ljust :: "nat \<Rightarrow> string \<Rightarrow> string" where
  "str_ljust w s = s @ replicate (w - length s) (CHR '' '')"

text \<open>\<open>str(b)\<close> for a bool.\<close>

definition str_bool :: "bool \<Rightarrow> string" where
  "str_bool b = (if b then ''True'' else ''False'')"

subsection \<open>fetch_projects\<close>

text \<open>
  One item of the resource search: \<open>r.name\<close>, \<open>r.project\<close>, \<open>r.display_name\<close> and the
  text \<open>str(r.create_time.date())\<close>, the ISO date the client library prints.
\<close>

record resource =
  r_name :: string
  r_project :: string
  r_display_name :: string
  r_create_date :: string

record project =
  project_id :: string
  project_number :: string
  display_name :: string
  create_date :: string

text \<open>Unpacking \<open>_, x = ...\<close> raises ValueError unless there are exactly two pieces.\<close>

definition unpack2 :: "string list \<Rightarrow> error + string" where
  "unpack2 pieces = (case pieces of [_, x] \<Rightarrow> Inr x | _ \<Rightarrow> Inl ValueError)"

definition project_of :: "resource \<Rightarrow> error + project" where
  "project_of r =
     bind (unpack2 (str_rsplit1 ''/projects/'' (r_name r))) (\<lambda>pid.
     bind (unpack2 (str_rsplit1 ''/'' (r_project r))) (\<lambda>pnum.
     Inr \<lparr>project_id = pid, project_number = pnum,
          display_name = r_display_name r, create_date = r_create_date r\<rparr>))"

definition fetch_projects :: "error + resource list \<Rightarrow> error + project list" where
  "fetch_projects response = bind response (for_each project_of)"

subsection \<open>fetch_project_owners\<close>

record binding =
  role :: string
  members :: "string list"

record policy =
  resource :: string
  bindings :: "binding list"

text \<open>\<open>path.split("/projects/")[-1].split("/")[0]\<close>, used by both of the other fetchers.\<close>

definition resource_key :: "string \<Rightarrow> string" where
  "resource_key path = hd (str_split ''/'' (last (str_split ''/projects/'' path)))"

definition usernames :: "binding \<Rightarrow> string list" where
  "usernames b =
     map (\<lambda>m. hd (str_split ''@'' (removeprefix ''user:'' m)))
         (filter (startswith ''user:'') (members b))"

text \<open>\<open>owners.setdefault(project_id, []).extend(usernames)\<close>.\<close>

definition extend_owners ::
  "string \<Rightarrow> string list \<Rightarrow> (string \<rightharpoonup> string list) \<Rightarrow> (string \<rightharpoonup> string list)" where
  "extend_owners pid us owners =
     owners(pid \<mapsto> (case owners pid of None \<Rightarrow> [] | Some old \<Rightarrow> old) @ us)"

fun add_bindings ::
  "string \<Rightarrow> binding list \<Rightarrow> (string \<rightharpoonup> string list) \<Rightarrow> (string \<rightharpoonup> string list)" where
  "add_bindings pid [] owners = owners"
| "add_bindings pid (b # bs) owners =
     add_bindings pid bs
       (if role b = ''roles/owner'' then extend_owners pid (usernames b) owners else owners)"

fun add_policies :: "policy list \<Rightarrow> (string \<rightharpoonup> string list) \<Rightarrow> (string \<rightharpoonup> string list)" where
  "add_policies [] owners = owners"
| "add_policies (p # ps) owners =
     add_policies ps (add_bindings (resource_key (resource p)) (bindings p) owners)"

text \<open>
  \<open>list(set(xs))\<close> lists the distinct elements of \<open>xs\<close> in the iteration order of a
  Python set, which depends on the string hashes of the process. The order is the
  parameter \<open>set_order\<close>; \<open>set_order_ok\<close> says what any such order satisfies.
\<close>

definition set_order_ok :: "(string list \<Rightarrow> string list) \<Rightarrow> bool" where
  "set_order_ok set_order = (\<forall>xs. distinct (set_order xs) \<and> set (set_order xs) = set xs)"

definition fetch_project_owners ::
  "(string list \<Rightarrow> string list) \<Rightarrow> error + policy list \<Rightarrow> error + (string \<rightharpoonup> string list)" where
  "fetch_project_owners set_order response =
     bind response (\<lambda>policies.
       Inr (\<lambda>pid. map_option set_order (add_policies policies Map.empty pid)))"

subsection \<open>fetch_inactive_project_numbers\<close>

record operation =
  op_resource :: string

record operation_group =
  operations :: "operation list"

record recommendation =
  operation_groups :: "operation_group list"

fun add_operations :: "operation list \<Rightarrow> string set \<Rightarrow> string set" where
  "add_operations [] inactive = inactive"
| "add_operations (op # ops) inactive =
     add_operations ops
       (if str_contains ''/projects/'' (op_resource op)
        then insert (resource_key (op_resource op)) inactive else inactive)"

fun add_groups :: "operation_group list \<Rightarrow> string set \<Rightarrow> string set" where
  "add_groups [] inactive = inactive"
| "add_groups (g # gs) inactive = add_groups gs (add_operations (operations g) inactive)"

fun add_recommendations :: "recommendation list \<Rightarrow> string set \<Rightarrow> string set" where
  "add_recommendations [] inactive = inactive"
| "add_recommendations (r # rs) inactive =
     add_recommendations rs (add_groups (operation_groups r) inactive)"

definition fetch_inactive_project_numbers ::
  "error + recommendation list \<Rightarrow> error + string set" where
  "fetch_inactive_project_numbers response =
     bind response (\<lambda>recommendations. Inr (add_recommendations recommendations {}))"

subsection \<open>print_report\<close>

text \<open>A project record after the join: the four fetched fields, \<open>owners\<close> and \<open>inactive\<close>.\<close>

record project_aug = project +
  owners :: "string list"
  inactive :: bool

text \<open>What one run leaves behind: the lines printed and the exception that ended it, if any.\<close>

record outcome =
  stdout :: "string list"
  raised :: "error option"

definition headers :: "bool \<Rightarrow> string list" where
  "headers show_inactive =
     [''display_name'', ''owners'', ''create_date'', ''project_id'']
     @ (if show_inactive then [''inactive''] else [])"

definition owners_str :: "string list \<Rightarrow> string" where
  "owners_str os = (if os \<noteq> [] then str_join '', '' (sort os) else ''-'')"

definition display_row :: "bool \<Rightarrow> project_aug \<Rightarrow> (string \<rightharpoonup> string)" where
  "display_row show_inactive p =
     (let row = [''display_name'' \<mapsto> display_name p,
                 ''owners'' \<mapsto> owners_str (owners p),
                 ''create_date'' \<mapsto> create_date p,
                 ''project_id'' \<mapsto> project_id p]
      in if show_inactive then row(''inactive'' \<mapsto> str_bool (inactive p)) else row)"

text \<open>\<open>max(len(col), max(len(row[col]) for row in display_data))\<close>.\<close>

definition col_width :: "(string \<rightharpoonup> string) list \<Rightarrow> string \<Rightarrow> error + nat" where
  "col_width display_data col =
     bind (for_each (\<lambda>row. bind (getitem row col) (\<lambda>v. Inr (length v))) display_data) (\<lambda>lens.
     bind (max_of lens) (\<lambda>m. Inr (max (length col) m)))"

fun col_widths ::
  "string list \<Rightarrow> (string \<rightharpoonup> string) list \<Rightarrow> (string \<rightharpoonup> nat) \<Rightarrow> error + (string \<rightharpoonup> nat)" where
  "col_widths [] display_data widths = Inr widths"
| "col_widths (col # cols) display_data widths =
     bind (col_width display_data col) (\<lambda>w. col_widths cols display_data (widths(col \<mapsto> w)))"

text \<open>\<open>"  ".join(h.ljust(col_widths[h]) for h in headers)\<close>.\<close>

definition format_header :: "(string \<rightharpoonup> nat) \<Rightarrow> string list \<Rightarrow> error + string" where
  "format_header widths hs =
     bind (for_each (\<lambda>h. bind (getitem widths h) (\<lambda>w. Inr (str_ljust w h))) hs) (\<lambda>cells.
     Inr (str_join ''  '' cells))"

text \<open>\<open>"  ".join(row[h].ljust(col_widths[h]) for h in headers)\<close>.\<close>

definition format_row ::
  "(string \<rightharpoonup> nat) \<Rightarrow> string list \<Rightarrow> (string \<rightharpoonup> string) \<Rightarrow> error + string" where
  "format_row widths hs row =
     bind (for_each (\<lambda>h. bind (getitem row h) (\<lambda>v.
                          bind (getitem widths h) (\<lambda>w. Inr (str_ljust w v)))) hs) (\<lambda>cells.
     Inr (str_join ''  '' cells))"

text \<open>The final loop: one \<open>print\<close> per row; \<open>out\<close> is what has been printed so far.\<close>

fun print_rows ::
  "(string \<rightharpoonup> nat) \<Rightarrow> string list \<Rightarrow> (string \<rightharpoonup> string) list \<Rightarrow> string list \<Rightarrow> outcome" where
  "print_rows widths hs [] out = \<lparr>stdout = out, raised = None\<rparr>"
| "print_rows widths hs (row # rows) out =
     (case format_row widths hs row of
        Inl e \<Rightarrow> \<lparr>stdout = out, raised = Some e\<rparr>
      | Inr line \<Rightarrow> print_rows widths hs rows (out @ [line]))"

definition print_report :: "project_aug list \<Rightarrow> bool \<Rightarrow> outcome" where
  "print_report projects show_inactive =
     (let hs = headers show_inactive;
          display_data = map (display_row show_inactive) projects
      in case col_widths hs display_data Map.empty of
           Inl e \<Rightarrow> \<lparr>stdout = [], raised = Some e\<rparr>
         | Inr widths \<Rightarrow>
             (case format_header widths hs of
                Inl e \<Rightarrow> \<lparr>stdout = [], raised = Some e\<rparr>
              | Inr header_row \<Rightarrow>
                  print_rows widths hs display_data
                    [header_row, replicate (length header_row) (CHR ''-'')]))"

subsection \<open>main\<close>

text \<open>
  The join: \<open>p["owners"] = owners.get(p["project_id"], [])\<close> and
  \<open>p["inactive"] = p["project_number"] in inactive\<close>.
\<close>

definition augment :: "(string \<rightharpoonup> string list) \<Rightarrow> string set \<Rightarrow> project \<Rightarrow> project_aug" where
  "augment owners_by_id inactive_numbers p =
     \<lparr>project_id = project_id p, project_number = project_number p,
      display_name = display_name p, create_date = create_date p,
      owners = (case owners_by_id (project_id p) of None \<Rightarrow> [] | Some us \<Rightarrow> us),
      inactive = (project_number p \<in> inactive_numbers)\<rparr>"

text \<open>\<open>projects.sort(key=lambda p: (not p["inactive"], p["create_date"]))\<close>; the sort is stable.\<close>

definition sort_projects :: "project_aug list \<Rightarrow> project_aug list" where
  "sort_projects projects = sort_key (\<lambda>p. (\<not> inactive p, create_date p)) projects"

text \<open>The list that \<open>main\<close> hands to \<open>print_report\<close>.\<close>

definition report_records ::
  "project list \<Rightarrow> (string \<rightharpoonup> string list) \<Rightarrow> string set \<Rightarrow> project_aug list" where
  "report_records projects owners_by_id inactive_numbers =
     sort_projects (map (augment owners_by_id inactive_numbers) projects)"

text \<open>
  \<open>main\<close>, after argument parsing: the three fetches in order, the join, the sort and the
  report. An exception of a fetch ends the run before anything is printed.
\<close>

definition main ::
  "(string list \<Rightarrow> string list) \<Rightarrow> bool \<Rightarrow> error + resource list \<Rightarrow> error + policy list \<Rightarrow>
   error + recommendation list \<Rightarrow> outcome" where
  "main set_order show_inactive resources policies recommendations =
     (case fetch_projects resources of
        Inl e \<Rightarrow> \<lparr>stdout = [], raised = Some e\<rparr>
      | Inr projects \<Rightarrow>
     (case fetch_project_owners set_order policies of
        Inl e \<Rightarrow> \<lparr>stdout = [], raised = Some e\<rparr>
      | Inr owners_by_id \<Rightarrow>
     (case fetch_inactive_project_numbers recommendations of
        Inl e \<Rightarrow> \<lparr>stdout = [], raised = Some e\<rparr>
      | Inr inactive_numbers \<Rightarrow>
          print_report (report_records projects owners_by_id inactive_numbers) show_inactive)))"

text \<open>The exit status of the interpreter: 1 after an uncaught exception, 0 otherwise.\<close>

definition exit_status :: "outcome \<Rightarrow> nat" where
  "exit_status r = (case raised r of None \<Rightarrow> 0 | Some e \<Rightarrow> 1)"

subsection \<open>The three-project scenario\<close>

text \<open>
  P1 (created 2020-01-01, owner alice, active), P2 (2021-06-15, no owners, inactive) and
  P3 (2019-03-03, owners bob and carol, active), in this fetch order.
\<close>

definition scenario_projects :: "project list" where
  "scenario_projects =
     [\<lparr>project_id = ''P1'', project_number = ''101'', display_name = ''P1'',
       create_date = ''2020-01-01''\<rparr>,
      \<lparr>project_id = ''P2'', project_number = ''102'', display_name = ''P2'',
       create_date = ''2021-06-15''\<rparr>,
      \<lparr>project_id = ''P3'', project_number = ''103'', display_name = ''P3'',
       create_date = ''2019-03-03''\<rparr>]"

definition scenario_owners :: "string \<rightharpoonup> string list" where
  "scenario_owners = [''P1'' \<mapsto> [''alice''], ''P3'' \<mapsto> [''carol'', ''bob'']]"

definition scenario_inactive :: "string set" where
  "scenario_inactive = {''102''}"

definition scenario_records :: "project_aug list" where
  "scenario_records = report_records scenario_projects scenario_owners scenario_inactive"

subsection \<open>Notions used to state the properties\<close>

text \<open>
  The owner-role bindings of the policies whose resource path resolves to \<open>pid\<close>, in the
  order of the response.
\<close>

definition owner_bindings :: "policy list \<Rightarrow> string \<Rightarrow> binding list" where
  "owner_bindings policies pid =
     filter (\<lambda>b. role b = ''roles/owner'')
       (concat (map bindings (filter (\<lambda>p. resource_key (resource p) = pid) policies)))"

text \<open>
  Every path segment that follows an occurrence of \<open>/projects/\<close> in a path: the text from
  the end of the occurrence up to the next \<open>/\<close>.
\<close>

fun following_segments :: "string \<Rightarrow> string list" where
  "following_segments [] = []"
| "following_segments (c # cs) =
     (if startswith ''/projects/'' (c # cs)
      then [takeWhile (\<lambda>x. x \<noteq> CHR ''/'') (drop (length ''/projects/'') (c # cs))] else [])
     @ following_segments cs"

text \<open>
  The text of column \<open>h\<close> in the row of a record, the width of a column as the largest
  length among its header and its cells, and a table line: the cells of the listed
  columns, each padded to the width of its column, joined by two spaces.
\<close>

definition cell :: "bool \<Rightarrow> project_aug \<Rightarrow> string \<Rightarrow> string" where
  "cell show_inactive p h = (case display_row show_inactive p h of None \<Rightarrow> [] | Some v \<Rightarrow> v)"

definition column_width :: "bool \<Rightarrow> project_aug list \<Rightarrow> string \<Rightarrow> nat" where
  "column_width show_inactive ps h =
     Max (insert (length h) ((\<lambda>p. length (cell show_inactive p h)) ` set ps))"

definition table_line :: "bool \<Rightarrow> project_aug list \<Rightarrow> (string \<Rightarrow> string) \<Rightarrow> string" where
  "table_line show_inactive ps cells =
     str_join ''  '' (map (\<lambda>h. str_ljust (column_width show_inactive ps h) (cells h))
                        (headers show_inactive))"

text \<open>
  The pieces of a string cut at a separator, taken from left to right without overlap:
  the pieces joined by the separator give the string back, each separator is the first
  occurrence of the separator in what follows the previous one (so a piece followed by
  all but the last character of the separator contains no separator), and the last piece
  contains none.
\<close>

fun is_cut :: "string \<Rightarrow> string list \<Rightarrow> string \<Rightarrow> bool" where
  "is_cut sep [] s = False"
| "is_cut sep [p] s = (s = p \<and> \<not> str_contains sep p)"
| "is_cut sep (p # q # qs) s =
     (take (length p + length sep) s = p @ sep \<and>
      \<not> str_contains sep (p @ butlast sep) \<and>
      is_cut sep (q # qs) (drop (length p + length sep) s))"

subsection \<open>A small organization\<close>

text \<open>
  Two projects; owner bindings on the first project and on one of its resources, with a
  repeated user, a service account and a non-owner role; a policy on a folder; one
  recommendation naming the second project and a folder.
\<close>

definition example_resources :: "resource list" where
  "example_resources =
     [\<lparr>r_name = ''//crm/projects/alpha'', r_project = ''projects/101'',
       r_display_name = ''Alpha'', r_create_date = ''2020-01-01''\<rparr>,
      \<lparr>r_name = ''//crm/projects/beta'', r_project = ''projects/102'',
       r_display_name = ''Beta'', r_create_date = ''2021-06-15''\<rparr>]"

definition example_projects :: "project list" where
  "example_projects =
     [\<lparr>project_id = ''alpha'', project_number = ''101'', display_name = ''Alpha'',
       create_date = ''2020-01-01''\<rparr>,
      \<lparr>project_id = ''beta'', project_number = ''102'', display_name = ''Beta'',
       create_date = ''2021-06-15''\<rparr>]"

definition example_policies :: "policy list" where
  "example_policies =
     [\<lparr>resource = ''//crm/projects/alpha'',
       bindings = [\<lparr>role = ''roles/owner'',
                    members = [''user:jane.doe@example.com'',
                               ''serviceAccount:x@proj.iam.gserviceaccount.com'']\<rparr>,
                   \<lparr>role = ''roles/viewer'', members = [''user:eve@example.com'']\<rparr>]\<rparr>,
      \<lparr>resource = ''//crm/projects/alpha/topics/t'',
       bindings = [\<lparr>role = ''roles/owner'',
                    members = [''user:bob@example.com'', ''user:jane.doe@corp.example'']\<rparr>]\<rparr>,
      \<lparr>resource = ''folders/77'',
       bindings = [\<lparr>role = ''roles/owner'', members = [''user:root@example.com'']\<rparr>]\<rparr>]"

definition example_recommendations :: "recommendation list" where
  "example_recommendations =
     [\<lparr>operation_groups =
        [\<lparr>operations = [\<lparr>op_resource = ''//crm/projects/102''\<rparr>,
                        \<lparr>op_resource = ''//crm/folders/77''\<rparr>]\<rparr>]\<rparr>]"

definition example_owners :: "string \<rightharpoonup> string list" where
  "example_owners = (\<lambda>pid. map_option remdups (add_policies example_policies Map.empty pid))"

definition example_alpha :: project_aug where
  "example_alpha =
     \<lparr>project_id = ''alpha'', project_number = ''101'', display_name = ''Alpha'',
      create_date = ''2020-01-01'', owners = [''bob'', ''jane.doe''], inactive = False\<rparr>"

definition example_beta :: project_aug where
  "example_beta =
     \<lparr>project_id = ''beta'', project_number = ''102'', display_name = ''Beta'',
      create_date = ''2021-06-15'', owners = [], inactive = True\<rparr>"

section \<open>Properties\<close>

subsection \<open>The sort\<close>

lemma scenario_records_eval:
  "scenario_records =
     [\<lparr>project_id = ''P2'', project_number = ''102'', display_name = ''P2'',
       create_date = ''2021-06-15'', owners = [], inactive = True\<rparr>,
      \<lparr>project_id = ''P3'', project_number = ''103'', display_name = ''P3'',
       create_date = ''2019-03-03'', owners = [''carol'', ''bob''], inactive = False\<rparr>,
      \<lparr>project_id = ''P1'', project_number = ''101'', display_name = ''P1'',
       create_date = ''2020-01-01'', owners = [''alice''], inactive = False\<rparr>]"
  by (simp add: scenario_records_def report_records_def sort_projects_def scenario_projects_def
      scenario_owners_def scenario_inactive_def augment_def less_eq_prod_def less_prod_def)

lemma sort_projects_sorted:
  "sorted (map (\<lambda>p. (\<not> inactive p, create_date p)) (sort_projects ps))"
  unfolding sort_projects_def by (rule sorted_sort_key)

lemma sort_projects_pair:
  assumes "i < j" "j < length (sort_projects ps)"
  shows "(inactive (sort_projects ps ! i) \<and> \<not> inactive (sort_projects ps ! j)) \<or>
         (inactive (sort_projects ps ! i) = inactive (sort_projects ps ! j) \<and>
          create_date (sort_projects ps ! i) \<le> create_date (sort_projects ps ! j))"
proof -
  let ?k = "\<lambda>p::project_aug. (\<not> inactive p, create_date p)"
  let ?rs = "sort_projects ps"
  have "map ?k ?rs ! i \<le> map ?k ?rs ! j"
    by (rule sorted_nth_mono [OF sort_projects_sorted]) (use assms in simp_all)
  then have "?k (?rs ! i) \<le> ?k (?rs ! j)"
    using assms by simp
  then show ?thesis
    by (auto simp: less_eq_prod_def)
qed

text \<open>
  C1, as stated, fails. The key is \<open>(not inactive, create_date)\<close> and False sorts before
  True, so the records with \<open>inactive = True\<close> come first: the scenario is rendered in the
  order P2, P3, P1, not P3, P1, P2, and its first two records A = P2, B = P3 satisfy
  neither "A active and B inactive" nor "same activity and A.create_date <= B.create_date".
\<close>

theorem sort_active_first_counterexample:
  "map project_id scenario_records = [''P2'', ''P3'', ''P1''] \<and>
   map project_id scenario_records \<noteq> [''P3'', ''P1'', ''P2''] \<and>
   \<not> ((\<not> inactive (scenario_records ! 0) \<and> inactive (scenario_records ! 1)) \<or>
       (inactive (scenario_records ! 0) = inactive (scenario_records ! 1) \<and>
        create_date (scenario_records ! 0) \<le> create_date (scenario_records ! 1)))"
  by (simp add: scenario_records_eval)

text \<open>
  C1, amended: the sort puts inactive projects before active ones and orders each
  activity bucket by create_date ascending. For any two records A, B handed to the
  renderer in that order, either A is inactive and B is active, or both have the same
  activity and A.create_date <= B.create_date; the three-project scenario is rendered in
  the order P2, P3, P1.
\<close>

theorem sort_inactive_first:
  "(\<forall>i j. i < j \<and> j < length (report_records ps om ina) \<longrightarrow>
      (inactive (report_records ps om ina ! i) \<and> \<not> inactive (report_records ps om ina ! j)) \<or>
      (inactive (report_records ps om ina ! i) = inactive (report_records ps om ina ! j) \<and>
       create_date (report_records ps om ina ! i) \<le> create_date (report_records ps om ina ! j)))
   \<and> map project_id (report_records scenario_projects scenario_owners scenario_inactive)
       = [''P2'', ''P3'', ''P1'']"
proof -
  have "map project_id (report_records scenario_projects scenario_owners scenario_inactive)
          = [''P2'', ''P3'', ''P1'']"
    using scenario_records_eval by (simp add: scenario_records_def)
  then show ?thesis
    unfolding report_records_def using sort_projects_pair by blast
qed

theorem sort_inactive_first_witness:
  "(0::nat) < 2 \<and> 2 < length (report_records scenario_projects scenario_owners scenario_inactive)
   \<and> inactive (report_records scenario_projects scenario_owners scenario_inactive ! 0)
   \<and> \<not> inactive (report_records scenario_projects scenario_owners scenario_inactive ! 2)"
proof -
  have len: "(0::nat) < 2 \<and>
      2 < length (report_records scenario_projects scenario_owners scenario_inactive)"
    using scenario_records_eval by (simp add: scenario_records_def)
  have "create_date (report_records scenario_projects scenario_owners scenario_inactive ! 2)
        < create_date (report_records scenario_projects scenario_owners scenario_inactive ! 0)"
    using scenario_records_eval by (simp add: scenario_records_def)
  with len sort_inactive_first [of scenario_projects scenario_owners scenario_inactive]
  show ?thesis by (meson not_le)
qed

subsection \<open>The renderer on an empty list\<close>

text \<open>
  C2: with no project records the inner \<open>max\<close> of \<open>print_report\<close> runs over an empty
  sequence and raises ValueError before the header is printed: nothing is printed and
  the call does not succeed. A run of \<open>main\<close> on an organization without projects ends
  this way.
\<close>

theorem print_report_empty:
  "print_report [] show_inactive = \<lparr>stdout = [], raised = Some ValueError\<rparr> \<and>
   main set_order show_inactive (Inr []) (Inr policies) (Inr recommendations)
     = \<lparr>stdout = [], raised = Some ValueError\<rparr>"
proof -
  have "print_report [] show_inactive = \<lparr>stdout = [], raised = Some ValueError\<rparr>"
    by (simp add: print_report_def headers_def col_width_def bind_def)
  then show ?thesis
    by (simp add: main_def fetch_projects_def fetch_project_owners_def
        fetch_inactive_project_numbers_def bind_def report_records_def sort_projects_def)
qed

subsection \<open>String splitting\<close>

lemma str_split_nonempty: "str_split sep s \<noteq> []"
  by (induction sep s rule: str_split.induct) (auto simp: cons_first_def split: list.splits)

lemma hd_cons_first: "xs \<noteq> [] \<Longrightarrow> hd (cons_first c xs) = c # hd xs"
  by (cases xs) (auto simp: cons_first_def)

lemma last_cons_first:
  "last (cons_first c xs) = (case xs of [] \<Rightarrow> [c] | [p] \<Rightarrow> c # p | _ \<Rightarrow> last xs)"
  by (auto simp: cons_first_def split: list.splits)

lemma hd_str_split_char: "hd (str_split [c] s) = takeWhile (\<lambda>x. x \<noteq> c) s"
  by (induction s) (auto simp: startswith_def hd_cons_first str_split_nonempty)

lemma str_split_absent:
  "\<not> str_contains sep s \<Longrightarrow> str_split sep s = [s]"
  by (induction s) (auto simp: cons_first_def)

lemma startswith_append: "startswith sep s \<Longrightarrow> s = sep @ drop (length sep) s"
  by (metis append_take_drop_id startswith_def)

lemma str_split_last:
  "sep \<noteq> [] \<Longrightarrow> \<not> str_contains sep (last (str_split sep s)) \<and>
         (str_contains sep s \<longrightarrow>
            (\<exists>pre. s = pre @ sep @ last (str_split sep s)) \<and> 2 \<le> length (str_split sep s))"
proof (induction sep s rule: str_split.induct)
  case (1 sep)
  then show ?case by simp
next
  case (2 sep c cs)
  show ?case
  proof (cases "sep \<noteq> [] \<and> startswith sep (c # cs)")
    case True
    let ?rest = "drop (length sep - 1) cs"
    from True have eq: "c # cs = sep @ ?rest"
      using startswith_append [of sep "c # cs"] by (cases sep) auto
    have split: "str_split sep (c # cs) = [] # str_split sep ?rest"
      using True by simp
    have last: "last (str_split sep (c # cs)) = last (str_split sep ?rest)"
      using split str_split_nonempty by simp
    have IH: "\<not> str_contains sep (last (str_split sep ?rest)) \<and>
         (str_contains sep ?rest \<longrightarrow>
            (\<exists>pre. ?rest = pre @ sep @ last (str_split sep ?rest)) \<and> 2 \<le> length (str_split sep ?rest))"
      using "2.IH"(1) True by simp
    have len: "2 \<le> length (str_split sep (c # cs))"
      using split str_split_nonempty [of sep ?rest] by (cases "str_split sep ?rest") auto
    have "\<exists>pre. c # cs = pre @ sep @ last (str_split sep ?rest)"
    proof (cases "str_contains sep ?rest")
      case True
      with IH obtain pre where "?rest = pre @ sep @ last (str_split sep ?rest)" by blast
      with eq have "c # cs = (sep @ pre) @ sep @ last (str_split sep ?rest)" by simp
      then show ?thesis by blast
    next
      case False
      then have "str_split sep ?rest = [?rest]" by (rule str_split_absent)
      with eq have "c # cs = [] @ sep @ last (str_split sep ?rest)" by simp
      then show ?thesis by blast
    qed
    with IH last len show ?thesis by simp
  next
    case False
    then have split: "str_split sep (c # cs) = cons_first c (str_split sep cs)"
      by auto
    have IH: "\<not> str_contains sep (last (str_split sep cs)) \<and>
         (str_contains sep cs \<longrightarrow>
            (\<exists>pre. cs = pre @ sep @ last (str_split sep cs)) \<and> 2 \<le> length (str_split sep cs))"
      using "2.IH"(2) False "2.prems" by simp
    show ?thesis
    proof (cases "str_contains sep cs")
      case True
      with IH obtain pre where pre: "cs = pre @ sep @ last (str_split sep cs)"
        and len: "2 \<le> length (str_split sep cs)" by blast
      from len have l: "last (cons_first c (str_split sep cs)) = last (str_split sep cs)"
        by (auto simp: last_cons_first split: list.splits)
      from len have l2: "2 \<le> length (cons_first c (str_split sep cs))"
        by (auto simp: cons_first_def split: list.splits)
      from pre have "c # cs = (c # pre) @ sep @ last (str_split sep cs)" by simp
      then have "\<exists>pre. c # cs = pre @ sep @ last (str_split sep cs)" by blast
      with IH l l2 split show ?thesis by simp
    next
      case nc: False
      then have "str_split sep cs = [cs]" by (rule str_split_absent)
      then have "str_split sep (c # cs) = [c # cs]" using split by (simp add: cons_first_def)
      moreover have "\<not> str_contains sep (c # cs)" using False nc "2.prems"
        by auto
      ultimately show ?thesis by simp
    qed
  qed
qed

lemma str_contains_length: "str_contains sub s \<Longrightarrow> length sub \<le> length s"
  by (induction s) (auto simp: startswith_def dest: arg_cong [where f = length])

lemma startswith_extend: "startswith sep xs \<Longrightarrow> startswith sep (xs @ ys)"
proof -
  assume a: "startswith sep xs"
  then have "length (take (length sep) xs) = length sep"
    unfolding startswith_def by simp
  then have "length sep \<le> length xs"
    by simp
  with a show ?thesis by (simp add: startswith_def)
qed

lemma startswith_restrict:
  "startswith sep (xs @ ys) \<Longrightarrow> length sep \<le> length xs \<Longrightarrow> startswith sep xs"
  by (simp add: startswith_def)

lemma str_split_piece:
  assumes "sep \<noteq> []" and "\<not> str_contains sep (p @ butlast sep)"
  shows "str_split sep (p @ sep @ rest) = p # str_split sep rest"
  using assms(2)
proof (induction p)
  case Nil
  from assms(1) obtain c cs where sep: "sep = c # cs" by (cases sep) auto
  have "startswith sep (sep @ rest)" by (simp add: startswith_def)
  then show ?case using sep by simp
next
  case (Cons a p)
  from Cons.prems have ns: "\<not> startswith sep (a # p @ butlast sep)"
    and nc: "\<not> str_contains sep (p @ butlast sep)" by simp_all
  have split: "a # p @ sep @ rest = (a # p @ butlast sep) @ (last sep # rest)"
    using assms(1) by simp
  have "length sep \<le> length (a # p @ butlast sep)" by simp
  with ns have "\<not> startswith sep (a # p @ sep @ rest)"
    unfolding split using startswith_restrict by blast
  then have "str_split sep ((a # p) @ sep @ rest) = cons_first a (str_split sep (p @ sep @ rest))"
    by simp
  also have "\<dots> = (a # p) # str_split sep rest"
    using Cons.IH [OF nc] by (simp add: cons_first_def)
  finally show ?case .
qed

lemma is_cut_unique:
  "sep \<noteq> [] \<Longrightarrow> is_cut sep pieces s \<Longrightarrow> str_split sep s = pieces"
proof (induction sep pieces s rule: is_cut.induct)
  case (1 sep s)
  then show ?case by simp
next
  case (2 sep p s)
  then show ?case by (simp add: str_split_absent)
next
  case (3 sep p q qs s)
  let ?rest = "drop (length p + length sep) s"
  from "3.prems" have tk: "take (length p + length sep) s = p @ sep"
    and nc: "\<not> str_contains sep (p @ butlast sep)"
    and cut: "is_cut sep (q # qs) ?rest" by simp_all
  have s: "s = p @ sep @ ?rest"
    using tk append_take_drop_id [of "length p + length sep" s] by simp
  have "str_split sep (p @ sep @ ?rest) = p # str_split sep ?rest"
    using "3.prems"(1) nc by (rule str_split_piece)
  also have "str_split sep ?rest = q # qs"
    using "3.IH" "3.prems"(1) cut by simp
  finally show ?case using s by simp
qed

lemma is_cut_cons_first:
  assumes "is_cut sep pieces cs" and "\<not> startswith sep (c # cs)"
  shows "is_cut sep (cons_first c pieces) (c # cs)"
proof (cases pieces)
  case Nil
  with assms show ?thesis by simp
next
  case (Cons p ps)
  show ?thesis
  proof (cases ps)
    case Nil
    with Cons assms show ?thesis by (simp add: cons_first_def)
  next
    case (Cons q qs)
    with \<open>pieces = p # ps\<close> assms(1)
    have tk: "take (length p + length sep) cs = p @ sep"
      and nc: "\<not> str_contains sep (p @ butlast sep)"
      and cut: "is_cut sep (q # qs) (drop (length p + length sep) cs)" by simp_all
    have cs: "cs = p @ sep @ drop (length p + length sep) cs"
      using tk append_take_drop_id [of "length p + length sep" cs] by simp
    have "\<not> startswith sep (c # p @ butlast sep)"
    proof
      assume "startswith sep (c # p @ butlast sep)"
      then have "startswith sep ((c # p @ butlast sep) @ (drop (length sep - 1) sep @ drop (length p + length sep) cs))"
        by (rule startswith_extend)
      moreover have "butlast sep @ drop (length sep - 1) sep = sep"
        by (simp add: butlast_conv_take)
      ultimately have "startswith sep (c # p @ sep @ drop (length p + length sep) cs)"
        by (metis append.assoc append_Cons)
      with cs assms(2) show False by simp
    qed
    with nc have "\<not> str_contains sep ((c # p) @ butlast sep)" by simp
    with tk cut Cons \<open>pieces = p # ps\<close> show ?thesis
      by (simp add: cons_first_def)
  qed
qed

lemma is_cut_str_split:
  "sep \<noteq> [] \<Longrightarrow> is_cut sep (str_split sep s) s"
proof (induction sep s rule: str_split.induct)
  case (1 sep)
  then show ?case by simp
next
  case (2 sep c cs)
  show ?case
  proof (cases "startswith sep (c # cs)")
    case True
    let ?rest = "drop (length sep - 1) cs"
    have eq: "c # cs = sep @ ?rest"
      using True startswith_append [of sep "c # cs"] "2.prems" by (cases sep) auto
    have split: "str_split sep (c # cs) = [] # str_split sep ?rest"
      using True "2.prems" by simp
    obtain q qs where q: "str_split sep ?rest = q # qs"
      using str_split_nonempty [of sep ?rest] by (cases "str_split sep ?rest") auto
    have cut: "is_cut sep (q # qs) ?rest"
      using "2.IH"(1) True "2.prems" q by simp
    have nb: "\<not> str_contains sep (butlast sep)"
      using str_contains_length [of sep "butlast sep"] "2.prems" by (cases sep) auto
    have tk: "take (length sep) (c # cs) = sep"
      using True by (simp add: startswith_def)
    have dr: "drop (length sep) (c # cs) = ?rest"
      using "2.prems" by (cases sep) auto
    show ?thesis
      unfolding split q using tk dr nb cut by simp
  next
    case False
    then have split: "str_split sep (c # cs) = cons_first c (str_split sep cs)"
      by simp
    have "is_cut sep (str_split sep cs) cs"
      using "2.IH"(2) False "2.prems" by simp
    then show ?thesis
      unfolding split using False by (rule is_cut_cons_first)
  qed
qed

lemma is_cut_iff: "sep \<noteq> [] \<Longrightarrow> is_cut sep pieces s \<longleftrightarrow> pieces = str_split sep s"
  using is_cut_unique is_cut_str_split by blast

subsection \<open>What the fetchers accumulate\<close>

lemma add_bindings_apply:
  "add_bindings pid bs acc k =
     (if k = pid \<and> filter (\<lambda>b. role b = ''roles/owner'') bs \<noteq> []
      then Some ((case acc pid of None \<Rightarrow> [] | Some old \<Rightarrow> old)
                 @ concat (map usernames (filter (\<lambda>b. role b = ''roles/owner'') bs)))
      else acc k)"
  by (induction bs arbitrary: acc) (auto simp: extend_owners_def split: option.splits)

lemma add_policies_apply:
  "add_policies ps acc k =
     (if owner_bindings ps k = [] then acc k
      else Some ((case acc k of None \<Rightarrow> [] | Some old \<Rightarrow> old)
                 @ concat (map usernames (owner_bindings ps k))))"
proof (induction ps arbitrary: acc)
  case Nil
  then show ?case by (simp add: owner_bindings_def)
next
  case (Cons p ps)
  show ?case
    by (simp add: Cons.IH add_bindings_apply owner_bindings_def split: option.splits)
qed

lemma set_owner_bindings:
  "set (owner_bindings ps k) =
     {b. \<exists>p\<in>set ps. resource_key (resource p) = k \<and> b \<in> set (bindings p) \<and> role b = ''roles/owner''}"
  by (auto simp: owner_bindings_def)

lemma add_operations_eq:
  "add_operations ops ina =
     ina \<union> {resource_key (op_resource op) | op. op \<in> set ops \<and> str_contains ''/projects/'' (op_resource op)}"
  by (induction ops arbitrary: ina) auto

lemma add_groups_eq:
  "add_groups gs ina =
     ina \<union> {resource_key (op_resource op) | op g. g \<in> set gs \<and> op \<in> set (operations g) \<and>
              str_contains ''/projects/'' (op_resource op)}"
  by (induction gs arbitrary: ina) (auto simp: add_operations_eq)

lemma add_recommendations_eq:
  "add_recommendations rs ina =
     ina \<union> {resource_key (op_resource op) | op g r. r \<in> set rs \<and> g \<in> set (operation_groups r) \<and>
              op \<in> set (operations g) \<and> str_contains ''/projects/'' (op_resource op)}"
  by (induction rs arbitrary: ina) (auto simp: add_groups_eq)

lemma resource_key_takeWhile:
  "resource_key path = takeWhile (\<lambda>c. c \<noteq> CHR ''/'') (last (str_split ''/projects/'' path))"
  by (simp add: resource_key_def hd_str_split_char)

lemma username_takeWhile:
  "startswith ''user:'' m \<Longrightarrow>
   hd (str_split ''@'' (removeprefix ''user:'' m)) = takeWhile (\<lambda>c. c \<noteq> CHR ''@'') (drop 5 m)"
  by (simp add: removeprefix_def hd_str_split_char eval_nat_numeral)

lemma set_report_records:
  "set (report_records ps om ina) = augment om ina ` set ps"
  by (simp add: report_records_def sort_projects_def)

lemma owners_augment:
  "owners (augment om ina p) = (case om (project_id p) of None \<Rightarrow> [] | Some us \<Rightarrow> us)"
  by (simp add: augment_def)

lemma fetched_owners_set:
  assumes "set_order_ok set_order"
    and "fetch_project_owners set_order (Inr policies) = Inr om"
  shows "distinct (case om k of None \<Rightarrow> [] | Some us \<Rightarrow> us)"
    and "set (case om k of None \<Rightarrow> [] | Some us \<Rightarrow> us) =
           (\<Union>b\<in>set (owner_bindings policies k). set (usernames b))"
proof -
  have om: "om = (\<lambda>pid. map_option set_order (add_policies policies Map.empty pid))"
    using assms(2) by (simp add: fetch_project_owners_def bind_def)
  have ok: "\<And>xs. distinct (set_order xs)" "\<And>xs. set (set_order xs) = set xs"
    using assms(1) by (simp_all add: set_order_ok_def)
  show "distinct (case om k of None \<Rightarrow> [] | Some us \<Rightarrow> us)"
    by (simp add: om ok split: option.splits)
  show "set (case om k of None \<Rightarrow> [] | Some us \<Rightarrow> us) =
           (\<Union>b\<in>set (owner_bindings policies k). set (usernames b))"
    by (auto simp: om ok add_policies_apply)
qed

subsection \<open>The small organization, evaluated\<close>

lemma example_projects_eval:
  "fetch_projects (Inr example_resources) =
     Inr example_projects"
  by (simp add: example_projects_def fetch_projects_def example_resources_def bind_def project_of_def unpack2_def str_rsplit1_def)

lemma example_keys_eval:
  "resource_key ''//crm/projects/alpha'' = ''alpha''"
  "resource_key ''//crm/projects/alpha/topics/t'' = ''alpha''"
  "resource_key ''folders/77'' = ''folders''"
  "resource_key ''//crm/projects/102'' = ''102''"
  by (simp_all add: resource_key_def startswith_def cons_first_def)

lemma example_usernames_eval:
  "usernames \<lparr>role = ''roles/owner'', members = [''user:jane.doe@example.com'',
                               ''serviceAccount:x@proj.iam.gserviceaccount.com'']\<rparr> = [''jane.doe'']"
  "usernames \<lparr>role = ''roles/owner'',
                    members = [''user:bob@example.com'', ''user:jane.doe@corp.example'']\<rparr> = [''bob'', ''jane.doe'']"
  "usernames \<lparr>role = ''roles/owner'', members = [''user:root@example.com'']\<rparr> = [''root'']"
  by (simp_all add: usernames_def startswith_def removeprefix_def cons_first_def)

lemma example_owners_eval:
  "add_policies example_policies Map.empty =
     [''alpha'' \<mapsto> [''jane.doe'', ''bob'', ''jane.doe''], ''folders'' \<mapsto> [''root'']]"
  by (simp add: example_policies_def example_keys_eval example_usernames_eval extend_owners_def)

lemma example_inactive_eval:
  "fetch_inactive_project_numbers (Inr example_recommendations) = Inr {''102''}"
  by (simp add: fetch_inactive_project_numbers_def bind_def example_recommendations_def example_keys_eval startswith_def)

lemma set_order_ok_remdups: "set_order_ok remdups"
  by (simp add: set_order_ok_def)

lemma example_fetch_owners:
  "fetch_project_owners remdups (Inr example_policies) = Inr example_owners"
  by (simp add: fetch_project_owners_def bind_def example_owners_def)

lemma example_owners_apply:
  "example_owners ''alpha'' = Some [''bob'', ''jane.doe'']"
  "example_owners ''beta'' = None"
  "example_owners ''folders'' = Some [''root'']"
  by (simp_all add: example_owners_def example_owners_eval)

lemma example_records_eval:
  "report_records example_projects example_owners {''102''} = [example_beta, example_alpha]"
  by (simp add: example_projects_def report_records_def sort_projects_def augment_def example_owners_apply
      example_alpha_def example_beta_def less_eq_prod_def less_prod_def)



lemma display_row_apply:
  "display_row show_inactive p ''display_name'' = Some (display_name p)"
  "display_row show_inactive p ''owners'' = Some (owners_str (owners p))"
  "display_row show_inactive p ''create_date'' = Some (create_date p)"
  "display_row show_inactive p ''project_id'' = Some (project_id p)"
  "display_row show_inactive p ''inactive'' =
     (if show_inactive then Some (str_bool (inactive p)) else None)"
  by (simp_all add: display_row_def Let_def)



subsection \<open>Owners after the join\<close>

text \<open>
  C3: every record handed to the renderer has as \<open>owners\<close> a duplicate-free list whose
  elements are exactly the usernames of the owner-role bindings of the policies whose
  resource path resolves (\<open>resource_key\<close>) to the record's own project_id, over all
  such policies and bindings; with no such binding the list is empty, and an empty list
  is rendered as \<open>-\<close>.
\<close>

theorem joined_owners:
  assumes "set_order_ok set_order"
    and "fetch_project_owners set_order (Inr policies) = Inr om"
    and "r \<in> set (report_records ps om ina)"
  shows "distinct (owners r) \<and>
         set (owners r) =
           {u. \<exists>pol\<in>set policies. \<exists>b\<in>set (bindings pol).
                 resource_key (resource pol) = project_id r \<and> role b = ''roles/owner'' \<and>
                 u \<in> set (usernames b)} \<and>
         ((\<forall>pol\<in>set policies. \<forall>b\<in>set (bindings pol).
              resource_key (resource pol) = project_id r \<longrightarrow> role b \<noteq> ''roles/owner'')
            \<longrightarrow> owners r = []) \<and>
         (owners r = [] \<longrightarrow> display_row show_inactive r ''owners'' = Some ''-'')"
proof -
  from assms(3) obtain p where r: "r = augment om ina p"
    by (auto simp: set_report_records)
  have pid: "project_id r = project_id p"
    by (simp add: r augment_def)
  have own: "owners r = (case om (project_id r) of None \<Rightarrow> [] | Some us \<Rightarrow> us)"
    by (simp add: r augment_def)
  have d: "distinct (owners r)"
    unfolding own by (rule fetched_owners_set(1) [OF assms(1,2)])
  have s: "set (owners r) = (\<Union>b\<in>set (owner_bindings policies (project_id r)). set (usernames b))"
    unfolding own by (rule fetched_owners_set(2) [OF assms(1,2)])
  have s': "set (owners r) =
           {u. \<exists>pol\<in>set policies. \<exists>b\<in>set (bindings pol).
                 resource_key (resource pol) = project_id r \<and> role b = ''roles/owner'' \<and>
                 u \<in> set (usernames b)}"
    unfolding s set_owner_bindings by blast
  have e: "(\<forall>pol\<in>set policies. \<forall>b\<in>set (bindings pol).
              resource_key (resource pol) = project_id r \<longrightarrow> role b \<noteq> ''roles/owner'')
            \<longrightarrow> owners r = []"
  proof
    assume "\<forall>pol\<in>set policies. \<forall>b\<in>set (bindings pol).
              resource_key (resource pol) = project_id r \<longrightarrow> role b \<noteq> ''roles/owner''"
    then have "set (owners r) = {}" unfolding s' by blast
    then show "owners r = []" by simp
  qed
  have c: "owners r = [] \<longrightarrow> display_row show_inactive r ''owners'' = Some ''-''"
    by (simp add: display_row_apply owners_str_def)
  from d s' e c show ?thesis by blast
qed

theorem joined_owners_witness:
  "set_order_ok remdups \<and>
   fetch_project_owners remdups (Inr example_policies) = Inr example_owners \<and>
   example_alpha \<in> set (report_records example_projects example_owners {''102''}) \<and>
   owners example_alpha = [''bob'', ''jane.doe''] \<and>
   set (owners example_alpha) =
     {u. \<exists>pol\<in>set example_policies. \<exists>b\<in>set (bindings pol).
           resource_key (resource pol) = project_id example_alpha \<and> role b = ''roles/owner'' \<and>
           u \<in> set (usernames b)}"
proof -
  have h3: "example_alpha \<in> set (report_records example_projects example_owners {''102''})"
    by (simp add: example_records_eval)
  have "owners example_alpha = [''bob'', ''jane.doe'']"
    by (simp add: example_alpha_def)
  with joined_owners [OF set_order_ok_remdups example_fetch_owners h3]
    set_order_ok_remdups example_fetch_owners h3
  show ?thesis by blast
qed

subsection \<open>Inactivity after the join\<close>

text \<open>
  C4, as stated, fails on a path with two \<open>/projects/\<close> segments: for the operation
  resource \<open>//crm/projects/111/projects/222\<close> the fetcher keeps only \<open>222\<close>, so a
  project numbered \<open>111\<close> is not inactive although \<open>111\<close> is a path segment that follows
  a \<open>/projects/\<close> segment of that path.
\<close>

theorem inactive_any_segment_counterexample:
  "fetch_inactive_project_numbers
     (Inr [\<lparr>operation_groups =
              [\<lparr>operations = [\<lparr>op_resource = ''//crm/projects/111/projects/222''\<rparr>]\<rparr>]\<rparr>])
     = Inr {''222''} \<and>
   ''111'' \<in> set (following_segments ''//crm/projects/111/projects/222'') \<and>
   \<not> inactive (augment scenario_owners {''222''}
        \<lparr>project_id = ''gamma'', project_number = ''111'', display_name = ''Gamma'',
         create_date = ''2022-02-02''\<rparr>)"
  by (simp add: fetch_inactive_project_numbers_def bind_def resource_key_def startswith_def
      cons_first_def augment_def)

lemma fetched_inactive_set:
  assumes "fetch_inactive_project_numbers (Inr recs) = Inr ina"
  shows "n \<in> ina \<longleftrightarrow>
     (\<exists>rec\<in>set recs. \<exists>g\<in>set (operation_groups rec). \<exists>op\<in>set (operations g).
        str_contains ''/projects/'' (op_resource op) \<and> n = resource_key (op_resource op))"
proof -
  have "ina = add_recommendations recs {}"
    using assms by (simp add: fetch_inactive_project_numbers_def bind_def)
  then show ?thesis
    unfolding add_recommendations_eq by blast
qed

text \<open>
  C4, amended: a record handed to the renderer is inactive iff, for some operation whose
  resource path contains \<open>/projects/\<close>, its own project_number is the text up to the
  next \<open>/\<close> of the last piece of that path cut at \<open>/projects/\<close>, the separators
  being taken from left to right without overlap. Every path has exactly one such cut:
  \<open>//crm/projects/111/projects/222\<close> is cut into \<open>//crm\<close>, \<open>111\<close>, \<open>222\<close>, so only
  \<open>222\<close> is added, and \<open>/projects/projects/x\<close> into the empty piece and
  \<open>projects/x\<close>, so \<open>projects\<close> is added. Operations whose path has no
  \<open>/projects/\<close> contribute nothing.
\<close>

theorem joined_inactive:
  assumes "fetch_inactive_project_numbers (Inr recs) = Inr ina"
    and "r \<in> set (report_records ps om ina)"
  shows "(inactive r \<longleftrightarrow>
           (\<exists>rec\<in>set recs. \<exists>g\<in>set (operation_groups rec). \<exists>op\<in>set (operations g).
              str_contains ''/projects/'' (op_resource op) \<and>
              (\<exists>pieces. is_cut ''/projects/'' pieces (op_resource op) \<and>
                 project_number r = takeWhile (\<lambda>c. c \<noteq> CHR ''/'') (last pieces))))
         \<and> (\<forall>path. \<exists>!pieces. is_cut ''/projects/'' pieces path)
         \<and> is_cut ''/projects/'' [''//crm'', ''111'', ''222''] ''//crm/projects/111/projects/222''
         \<and> is_cut ''/projects/'' ['''', ''projects/x''] ''/projects/projects/x''"
proof -
  have iff: "is_cut ''/projects/'' pieces path \<longleftrightarrow> pieces = str_split ''/projects/'' path"
    for pieces path
    by (rule is_cut_iff) simp
  from assms(2) obtain p where r: "r = augment om ina p"
    by (auto simp: set_report_records)
  have "inactive r \<longleftrightarrow> project_number r \<in> ina"
    by (simp add: r augment_def)
  then have a: "inactive r \<longleftrightarrow>
           (\<exists>rec\<in>set recs. \<exists>g\<in>set (operation_groups rec). \<exists>op\<in>set (operations g).
              str_contains ''/projects/'' (op_resource op) \<and>
              (\<exists>pieces. is_cut ''/projects/'' pieces (op_resource op) \<and>
                 project_number r = takeWhile (\<lambda>c. c \<noteq> CHR ''/'') (last pieces)))"
    unfolding fetched_inactive_set [OF assms(1)] resource_key_takeWhile iff by simp
  have b: "\<forall>path. \<exists>!pieces. is_cut ''/projects/'' pieces path"
    unfolding iff by simp
  have c: "is_cut ''/projects/'' [''//crm'', ''111'', ''222''] ''//crm/projects/111/projects/222''"
    by (simp add: startswith_def)
  have d: "is_cut ''/projects/'' ['''', ''projects/x''] ''/projects/projects/x''"
    by (simp add: startswith_def)
  from a b c d show ?thesis by blast
qed

theorem joined_inactive_witness:
  "fetch_inactive_project_numbers (Inr example_recommendations) = Inr {''102''} \<and>
   example_beta \<in> set (report_records example_projects example_owners {''102''}) \<and>
   inactive example_beta \<and>
   (\<exists>rec\<in>set example_recommendations. \<exists>g\<in>set (operation_groups rec). \<exists>op\<in>set (operations g).
      str_contains ''/projects/'' (op_resource op) \<and>
      (\<exists>pieces. is_cut ''/projects/'' pieces (op_resource op) \<and>
         project_number example_beta = takeWhile (\<lambda>c. c \<noteq> CHR ''/'') (last pieces)))"
proof -
  have h2: "example_beta \<in> set (report_records example_projects example_owners {''102''})"
    by (simp add: example_records_eval)
  have i: "inactive example_beta"
    by (simp add: example_beta_def)
  with joined_inactive [OF example_inactive_eval h2] example_inactive_eval h2
  show ?thesis by blast
qed

subsection \<open>Which members become owners, and under which key\<close>

lemma set_usernames:
  "set (usernames b) =
     {takeWhile (\<lambda>c. c \<noteq> CHR ''@'') (drop 5 m) | m. m \<in> set (members b) \<and> take 5 m = ''user:''}"
proof -
  have sw: "\<And>m. startswith ''user:'' m \<longleftrightarrow> take 5 m = ''user:''"
    by (simp add: startswith_def eval_nat_numeral)
  have "usernames b =
      map (\<lambda>m. takeWhile (\<lambda>c. c \<noteq> CHR ''@'') (drop 5 m)) (filter (startswith ''user:'') (members b))"
    unfolding usernames_def by (rule map_cong) (simp_all add: username_takeWhile)
  then show ?thesis
    by (auto simp: sw)
qed

text \<open>
  C5: a username is recorded for a key iff some policy resolving to the key has a binding
  whose role is exactly \<open>roles/owner\<close> with a member that starts with \<open>user:\<close>, the
  username being the member without \<open>user:\<close> and cut at its first \<open>@\<close>. On a binding
  with the members \<open>user:jane.doe@example.com\<close> and
  \<open>serviceAccount:x@proj.iam.gserviceaccount.com\<close> the usernames are just \<open>jane.doe\<close>.
\<close>

theorem owner_user_members:
  assumes "set_order_ok set_order"
    and "fetch_project_owners set_order (Inr policies) = Inr om"
  shows "(u \<in> set (case om k of None \<Rightarrow> [] | Some us \<Rightarrow> us) \<longleftrightarrow>
           (\<exists>pol\<in>set policies. \<exists>b\<in>set (bindings pol). \<exists>m\<in>set (members b).
              resource_key (resource pol) = k \<and> role b = ''roles/owner'' \<and>
              take 5 m = ''user:'' \<and> u = takeWhile (\<lambda>c. c \<noteq> CHR ''@'') (drop 5 m)))
         \<and> usernames \<lparr>role = ''roles/owner'',
                       members = [''user:jane.doe@example.com'',
                                  ''serviceAccount:x@proj.iam.gserviceaccount.com'']\<rparr>
             = [''jane.doe'']"
proof -
  have "u \<in> set (case om k of None \<Rightarrow> [] | Some us \<Rightarrow> us) \<longleftrightarrow>
           (\<exists>b\<in>set (owner_bindings policies k). u \<in> set (usernames b))"
    unfolding fetched_owners_set(2) [OF assms] by simp
  also have "\<dots> \<longleftrightarrow> (\<exists>pol\<in>set policies. \<exists>b\<in>set (bindings pol). \<exists>m\<in>set (members b).
              resource_key (resource pol) = k \<and> role b = ''roles/owner'' \<and>
              take 5 m = ''user:'' \<and> u = takeWhile (\<lambda>c. c \<noteq> CHR ''@'') (drop 5 m))"
    unfolding set_owner_bindings set_usernames by blast
  finally show ?thesis
    using example_usernames_eval(1) by simp
qed

theorem owner_user_members_witness:
  "set_order_ok remdups \<and>
   fetch_project_owners remdups (Inr example_policies) = Inr example_owners \<and>
   ''jane.doe'' \<in> set (case example_owners ''alpha'' of None \<Rightarrow> [] | Some us \<Rightarrow> us) \<and>
   \<not> (\<exists>pol\<in>set example_policies. \<exists>b\<in>set (bindings pol). \<exists>m\<in>set (members b).
         resource_key (resource pol) = ''alpha'' \<and> role b = ''roles/owner'' \<and>
         take 5 m = ''user:'' \<and> ''eve'' = takeWhile (\<lambda>c. c \<noteq> CHR ''@'') (drop 5 m))"
proof -
  have a: "''jane.doe'' \<in> set (case example_owners ''alpha'' of None \<Rightarrow> [] | Some us \<Rightarrow> us)"
    by (simp add: example_owners_apply)
  have b: "''eve'' \<notin> set (case example_owners ''alpha'' of None \<Rightarrow> [] | Some us \<Rightarrow> us)"
    by (simp add: example_owners_apply)
  from b owner_user_members [OF set_order_ok_remdups example_fetch_owners, of "''eve''" "''alpha''"]
  have "\<not> (\<exists>pol\<in>set example_policies. \<exists>b\<in>set (bindings pol). \<exists>m\<in>set (members b).
         resource_key (resource pol) = ''alpha'' \<and> role b = ''roles/owner'' \<and>
         take 5 m = ''user:'' \<and> ''eve'' = takeWhile (\<lambda>c. c \<noteq> CHR ''@'') (drop 5 m))"
    by blast
  with a set_order_ok_remdups example_fetch_owners show ?thesis by blast
qed

text \<open>
  C10: a policy whose resource path has no \<open>/projects/\<close> is not skipped by the
  ownership fetcher. Its key is the path up to the first \<open>/\<close> (the whole path when
  there is none) and the usernames of its owner-role bindings are recorded under that
  key, whereas the inactivity fetcher adds nothing for an operation with such a path.
\<close>

theorem policy_without_projects_segment:
  assumes "\<not> str_contains ''/projects/'' (resource pol)"
    and "set_order_ok set_order"
    and "fetch_project_owners set_order (Inr policies) = Inr om"
    and "pol \<in> set policies"
    and "b \<in> set (bindings pol)"
    and "role b = ''roles/owner''"
  shows "resource_key (resource pol) = takeWhile (\<lambda>c. c \<noteq> CHR ''/'') (resource pol) \<and>
         (\<exists>us. om (takeWhile (\<lambda>c. c \<noteq> CHR ''/'') (resource pol)) = Some us \<and>
               set (usernames b) \<subseteq> set us) \<and>
         add_operations [\<lparr>op_resource = resource pol\<rparr>] ina = ina"
proof -
  let ?k = "takeWhile (\<lambda>c. c \<noteq> CHR ''/'') (resource pol)"
  have key: "resource_key (resource pol) = ?k"
    unfolding resource_key_takeWhile using str_split_absent [OF assms(1)] by simp
  have mem: "b \<in> set (owner_bindings policies ?k)"
    unfolding set_owner_bindings using assms(4-6) key by blast
  then have ne: "owner_bindings policies ?k \<noteq> []" by auto
  have om: "om = (\<lambda>pid. map_option set_order (add_policies policies Map.empty pid))"
    using assms(3) by (simp add: fetch_project_owners_def bind_def)
  from ne obtain us where us: "om ?k = Some us"
    by (simp add: om add_policies_apply)
  have "set us = (\<Union>b\<in>set (owner_bindings policies ?k). set (usernames b))"
    using fetched_owners_set(2) [OF assms(2,3), of ?k] us by simp
  with mem have "set (usernames b) \<subseteq> set us" by blast
  with us key assms(1) show ?thesis by simp
qed

theorem policy_without_projects_segment_witness:
  "\<not> str_contains ''/projects/'' ''folders/77'' \<and>
   resource_key ''folders/77'' = ''folders'' \<and>
   (\<exists>us. example_owners ''folders'' = Some us \<and> set [''root''] \<subseteq> set us) \<and>
   add_operations [\<lparr>op_resource = ''folders/77''\<rparr>] {} = {}"
proof -
  let ?pol = "\<lparr>resource = ''folders/77'',
       bindings = [\<lparr>role = ''roles/owner'', members = [''user:root@example.com'']\<rparr>]\<rparr>"
  let ?b = "\<lparr>role = ''roles/owner'', members = [''user:root@example.com'']\<rparr>"
  have h1: "\<not> str_contains ''/projects/'' (resource ?pol)"
    by (simp add: startswith_def)
  have h4: "?pol \<in> set example_policies"
    by (simp add: example_policies_def)
  have h5: "?b \<in> set (bindings ?pol)" by simp
  have h6: "role ?b = ''roles/owner''" by simp
  have tw: "takeWhile (\<lambda>c. c \<noteq> CHR ''/'') (resource ?pol) = ''folders''" by simp
  from policy_without_projects_segment [OF h1 set_order_ok_remdups example_fetch_owners h4 h5 h6, of "{}"]
  show ?thesis
    using h1 unfolding tw example_usernames_eval by simp
qed

subsection \<open>A failing fetch\<close>

text \<open>
  C8: when one of the three fetch stages raises, \<open>main\<close> prints nothing, ends with an
  uncaught exception, which is the exception of a fetch stage, and the exit status is not
  zero.
\<close>

theorem fetch_failure_fails_fast:
  assumes "fetch_projects resources = Inl e \<or>
           fetch_project_owners set_order policies = Inl e \<or>
           fetch_inactive_project_numbers recommendations = Inl e"
  shows "stdout (main set_order show_inactive resources policies recommendations) = [] \<and>
         exit_status (main set_order show_inactive resources policies recommendations) \<noteq> 0 \<and>
         (\<exists>e'. raised (main set_order show_inactive resources policies recommendations) = Some e' \<and>
               (fetch_projects resources = Inl e' \<or>
                fetch_project_owners set_order policies = Inl e' \<or>
                fetch_inactive_project_numbers recommendations = Inl e'))"
proof (cases "fetch_projects resources")
  case (Inl e1)
  then show ?thesis by (simp add: main_def exit_status_def)
next
  case ps: (Inr ps)
  show ?thesis
  proof (cases "fetch_project_owners set_order policies")
    case (Inl e2)
    with ps show ?thesis by (simp add: main_def exit_status_def)
  next
    case om: (Inr om)
    show ?thesis
    proof (cases "fetch_inactive_project_numbers recommendations")
      case (Inl e3)
      with ps om show ?thesis by (simp add: main_def exit_status_def)
    next
      case (Inr ina)
      with ps om assms show ?thesis by simp
    qed
  qed
qed

theorem fetch_failure_fails_fast_witness:
  "fetch_project_owners remdups (Inl (ApiError ''PermissionDenied'')) = Inl (ApiError ''PermissionDenied'') \<and>
   main remdups True (Inr example_resources) (Inl (ApiError ''PermissionDenied''))
        (Inr example_recommendations)
     = \<lparr>stdout = [], raised = Some (ApiError ''PermissionDenied'')\<rparr>"
proof -
  have h: "fetch_project_owners remdups (Inl (ApiError ''PermissionDenied'')) = Inl (ApiError ''PermissionDenied'')"
    by (simp add: fetch_project_owners_def bind_def)
  have p: "fetch_projects (Inr example_resources) \<noteq> Inl e'" for e'
    by (simp add: example_projects_eval)
  have i: "fetch_inactive_project_numbers (Inr example_recommendations) \<noteq> Inl e'" for e'
    by (simp add: example_inactive_eval)
  from fetch_failure_fails_fast [of "Inr example_resources" "ApiError ''PermissionDenied''" remdups
      "Inl (ApiError ''PermissionDenied'')" "Inr example_recommendations" True] h
  have "stdout (main remdups True (Inr example_resources) (Inl (ApiError ''PermissionDenied''))
        (Inr example_recommendations)) = [] \<and>
        raised (main remdups True (Inr example_resources) (Inl (ApiError ''PermissionDenied''))
        (Inr example_recommendations)) = Some (ApiError ''PermissionDenied'')"
    using p i by auto
  with h show ?thesis by (cases "main remdups True (Inr example_resources) (Inl (ApiError ''PermissionDenied''))
        (Inr example_recommendations)") simp
qed

subsection \<open>Population of the records\<close>

text \<open>
  C9: when the three fetches succeed, \<open>main\<close> renders the sorted list of the augmented
  records. Every record of the list that is sorted, and every record of the list that is
  rendered, has its \<open>owners\<close> from the ownership mapping at its own project_id and its
  \<open>inactive\<close> from the inactive set at its own project_number. The sort returns the
  same records (as a multiset), and cutting the two added fields off the augmented
  records gives back the fetched records; \<open>print_report\<close> only reads its records.
\<close>

theorem records_populated_once:
  assumes "fetch_projects resources = Inr ps"
    and "fetch_project_owners set_order policies = Inr om"
    and "fetch_inactive_project_numbers recommendations = Inr ina"
  shows "main set_order show_inactive resources policies recommendations
           = print_report (sort_projects (map (augment om ina) ps)) show_inactive \<and>
         (\<forall>r\<in>set (map (augment om ina) ps).
            owners r = (case om (project_id r) of None \<Rightarrow> [] | Some us \<Rightarrow> us) \<and>
            inactive r = (project_number r \<in> ina)) \<and>
         (\<forall>r\<in>set (sort_projects (map (augment om ina) ps)).
            owners r = (case om (project_id r) of None \<Rightarrow> [] | Some us \<Rightarrow> us) \<and>
            inactive r = (project_number r \<in> ina)) \<and>
         mset (sort_projects (map (augment om ina) ps)) = mset (map (augment om ina) ps) \<and>
         map project.truncate (map (augment om ina) ps) = ps"
proof -
  have m: "main set_order show_inactive resources policies recommendations
           = print_report (sort_projects (map (augment om ina) ps)) show_inactive"
    using assms by (simp add: main_def report_records_def)
  have a: "\<forall>r\<in>set (map (augment om ina) ps).
            owners r = (case om (project_id r) of None \<Rightarrow> [] | Some us \<Rightarrow> us) \<and>
            inactive r = (project_number r \<in> ina)"
    by (auto simp: augment_def)
  have s: "mset (sort_projects (map (augment om ina) ps)) = mset (map (augment om ina) ps)"
    by (simp add: sort_projects_def)
  have b: "\<forall>r\<in>set (sort_projects (map (augment om ina) ps)).
            owners r = (case om (project_id r) of None \<Rightarrow> [] | Some us \<Rightarrow> us) \<and>
            inactive r = (project_number r \<in> ina)"
    using a by (simp add: sort_projects_def)
  have t: "map project.truncate (map (augment om ina) ps) = ps"
    by (induction ps) (simp_all add: augment_def project.truncate_def)
  from m a b s t show ?thesis by blast
qed

theorem records_populated_once_witness:
  "fetch_projects (Inr example_resources) = Inr example_projects \<and>
   fetch_project_owners remdups (Inr example_policies) = Inr example_owners \<and>
   fetch_inactive_project_numbers (Inr example_recommendations) = Inr {''102''} \<and>
   map (augment example_owners {''102''}) example_projects = [example_alpha, example_beta] \<and>
   main remdups True (Inr example_resources) (Inr example_policies) (Inr example_recommendations)
     = print_report [example_beta, example_alpha] True"
proof -
  have j: "map (augment example_owners {''102''}) example_projects = [example_alpha, example_beta]"
    by (simp add: example_projects_def augment_def example_owners_apply example_alpha_def
        example_beta_def)
  have s: "sort_projects (map (augment example_owners {''102''}) example_projects)
             = [example_beta, example_alpha]"
    using example_records_eval by (simp add: report_records_def)
  from records_populated_once [OF example_projects_eval example_fetch_owners example_inactive_eval,
      of True]
  have "main remdups True (Inr example_resources) (Inr example_policies) (Inr example_recommendations)
     = print_report [example_beta, example_alpha] True"
    unfolding s by blast
  with j example_projects_eval example_fetch_owners example_inactive_eval show ?thesis by blast
qed

subsection \<open>Determinism of the report\<close>

lemma insort_key_map:
  "insort_key k (f x) (map f xs) = map f (insort_key (\<lambda>y. k (f y)) x xs)"
  by (induction xs) simp_all

lemma sort_key_map:
  "sort_key k (map f xs) = map f (sort_key (\<lambda>y. k (f y)) xs)"
  by (induction xs) (simp_all add: insort_key_map)

lemma owners_str_cong:
  assumes "set_order_ok so1" "set_order_ok so2" "set xs = set ys"
  shows "owners_str (so1 xs) = owners_str (so2 ys)"
proof -
  have d: "distinct (so1 xs)" "distinct (so2 ys)" and s: "set (so1 xs) = set (so2 ys)"
    using assms by (simp_all add: set_order_ok_def)
  then have "mset (so1 xs) = mset (so2 ys)"
    by (simp add: set_eq_iff_mset_eq_distinct)
  then have "sort (so1 xs) = sort (so2 ys)"
    by (metis properties_for_sort mset_sort sorted_sort)
  moreover have "so1 xs = [] \<longleftrightarrow> so2 ys = []"
    using s by (metis set_empty)
  ultimately show ?thesis by (simp add: owners_str_def)
qed

lemma display_row_augment_cong:
  assumes "set_order_ok so1" "set_order_ok so2"
  shows "display_row show_inactive (augment (\<lambda>pid. map_option so1 (acc pid)) ina p)
       = display_row show_inactive (augment (\<lambda>pid. map_option so2 (acc pid)) ina p)"
proof (cases "acc (project_id p)")
  case None
  then show ?thesis by (simp add: display_row_def augment_def Let_def)
next
  case (Some us)
  have "owners_str (so1 us) = owners_str (so2 us)"
    by (rule owners_str_cong [OF assms]) simp
  with Some show ?thesis by (simp add: display_row_def augment_def Let_def)
qed

lemma print_report_cong:
  "map (display_row show_inactive) ps = map (display_row show_inactive) qs \<Longrightarrow>
   print_report ps show_inactive = print_report qs show_inactive"
  by (simp add: print_report_def)

text \<open>
  C7: the printed text and the outcome of a run depend only on the three responses and
  the flag, not on the order in which a Python set lists its elements: two runs with
  different such orders give the same \<open>main\<close>. The owners cell is the same for any two
  accumulated lists with the same elements, since it is sorted before it is joined.
\<close>

theorem report_deterministic:
  assumes "set_order_ok so1" and "set_order_ok so2"
  shows "main so1 show_inactive resources policies recommendations
           = main so2 show_inactive resources policies recommendations \<and>
         (\<forall>xs ys. set xs = set ys \<longrightarrow> owners_str (so1 xs) = owners_str (so2 ys))"
proof -
  have cell: "\<forall>xs ys. set xs = set ys \<longrightarrow> owners_str (so1 xs) = owners_str (so2 ys)"
    using owners_str_cong [OF assms] by blast
  have "main so1 show_inactive resources policies recommendations
           = main so2 show_inactive resources policies recommendations"
  proof (cases policies)
    case (Inl e)
    then show ?thesis by (simp add: main_def fetch_project_owners_def bind_def split: sum.splits)
  next
    case (Inr pols)
    let ?acc = "add_policies pols Map.empty"
    let ?k = "\<lambda>p::project_aug. (\<not> inactive p, create_date p)"
    have om: "fetch_project_owners so policies = Inr (\<lambda>pid. map_option so (?acc pid))" for so
      using Inr by (simp add: fetch_project_owners_def bind_def)
    have rep: "print_report (report_records ps (\<lambda>pid. map_option so1 (?acc pid)) ina) show_inactive
             = print_report (report_records ps (\<lambda>pid. map_option so2 (?acc pid)) ina) show_inactive"
      for ps ina
    proof (rule print_report_cong)
      have key: "(\<lambda>y. ?k (augment (\<lambda>pid. map_option so1 (?acc pid)) ina y))
               = (\<lambda>y. ?k (augment (\<lambda>pid. map_option so2 (?acc pid)) ina y))"
        by (simp add: augment_def)
      show "map (display_row show_inactive) (report_records ps (\<lambda>pid. map_option so1 (?acc pid)) ina)
          = map (display_row show_inactive) (report_records ps (\<lambda>pid. map_option so2 (?acc pid)) ina)"
        unfolding report_records_def sort_projects_def sort_key_map key
        by (simp add: display_row_augment_cong [OF assms])
    qed
    show ?thesis
      unfolding main_def om using rep
      by (simp split: sum.splits)
  qed
  with cell show ?thesis by blast
qed

lemma set_order_ok_rev_remdups: "set_order_ok (\<lambda>xs. rev (remdups xs))"
  by (simp add: set_order_ok_def)

theorem report_deterministic_witness:
  "set_order_ok remdups \<and> set_order_ok (\<lambda>xs. rev (remdups xs)) \<and>
   remdups [''jane.doe'', ''bob'', ''jane.doe''] \<noteq> rev (remdups [''jane.doe'', ''bob'', ''jane.doe'']) \<and>
   main remdups True (Inr example_resources) (Inr example_policies) (Inr example_recommendations)
     = main (\<lambda>xs. rev (remdups xs)) True (Inr example_resources) (Inr example_policies)
         (Inr example_recommendations) \<and>
   owners_str (remdups [''jane.doe'', ''bob'', ''jane.doe''])
     = owners_str (rev (remdups [''bob'', ''jane.doe'']))"
proof -
  have d: "remdups [''jane.doe'', ''bob'', ''jane.doe'']
             \<noteq> rev (remdups [''jane.doe'', ''bob'', ''jane.doe''])"
    by simp
  have s: "set [''jane.doe'', ''bob'', ''jane.doe''] = set [''bob'', ''jane.doe'']"
    by auto
  from report_deterministic [OF set_order_ok_remdups set_order_ok_rev_remdups,
      of True "Inr example_resources" "Inr example_policies" "Inr example_recommendations"]
    s d set_order_ok_remdups set_order_ok_rev_remdups
  show ?thesis by blast
qed

subsection \<open>The layout of the table\<close>

lemma display_row_headers:
  "h \<in> set (headers show_inactive) \<Longrightarrow>
   display_row show_inactive p h = Some (cell show_inactive p h)"
  by (auto simp: headers_def cell_def display_row_apply split: if_splits)

lemma for_each_Inr:
  "(\<And>x. x \<in> set xs \<Longrightarrow> f x = Inr (g x)) \<Longrightarrow> for_each f xs = Inr (map g xs)"
  by (induction xs) (simp_all add: bind_def)

lemma max_of_Max: "xs \<noteq> [] \<Longrightarrow> max_of xs = Inr (Max (set xs))"
proof (cases xs)
  case Nil
  assume "xs \<noteq> []"
  with Nil show ?thesis by simp
next
  case (Cons y ys)
  then show ?thesis using Max.set_eq_fold [of y ys] by simp
qed

lemma col_width_eq:
  assumes "ps \<noteq> []" and "h \<in> set (headers show_inactive)"
  shows "col_width (map (display_row show_inactive) ps) h = Inr (column_width show_inactive ps h)"
proof -
  let ?len = "\<lambda>p. length (cell show_inactive p h)"
  have "for_each (\<lambda>row. bind (getitem row h) (\<lambda>v. Inr (length v)))
          (map (display_row show_inactive) ps) = Inr (map (\<lambda>row. length (case row h of None \<Rightarrow> [] | Some v \<Rightarrow> v)) (map (display_row show_inactive) ps))"
    by (rule for_each_Inr) (auto simp: getitem_def bind_def display_row_headers [OF assms(2)])
  then have lens: "for_each (\<lambda>row. bind (getitem row h) (\<lambda>v. Inr (length v)))
          (map (display_row show_inactive) ps) = Inr (map ?len ps)"
    by (simp add: cell_def comp_def)
  have mx: "max_of (map ?len ps) = Inr (Max (set (map ?len ps)))"
    by (rule max_of_Max) (simp add: assms(1))
  have cw: "max (length h) (Max (set (map ?len ps))) = column_width show_inactive ps h"
    unfolding column_width_def using assms(1) by (subst Max_insert) auto
  have "col_width (map (display_row show_inactive) ps) h
          = Inr (max (length h) (Max (set (map ?len ps))))"
    unfolding col_width_def lens using mx by (simp add: bind_def)
  then show ?thesis
    using cw by simp
qed

lemma col_widths_eq:
  assumes "\<And>h. h \<in> set hs \<Longrightarrow> col_width dd h = Inr (w h)"
  shows "\<exists>m. col_widths hs dd acc = Inr m \<and> (\<forall>h. m h = (if h \<in> set hs then Some (w h) else acc h))"
  using assms
proof (induction hs arbitrary: acc)
  case Nil
  then show ?case by simp
next
  case (Cons a hs)
  from Cons.prems have tl: "\<And>h. h \<in> set hs \<Longrightarrow> col_width dd h = Inr (w h)"
    by simp
  from Cons.IH [OF tl, of "acc(a \<mapsto> w a)"]
  obtain m where "col_widths hs dd (acc(a \<mapsto> w a)) = Inr m"
    and "\<forall>h. m h = (if h \<in> set hs then Some (w h) else (acc(a \<mapsto> w a)) h)"
    by blast
  moreover have "col_width dd a = Inr (w a)"
    using Cons.prems by simp
  ultimately show ?case
    by (auto simp: bind_def)
qed

lemma format_header_eq:
  assumes "\<And>h. h \<in> set hs \<Longrightarrow> m h = Some (w h)"
  shows "format_header m hs = Inr (str_join ''  '' (map (\<lambda>h. str_ljust (w h) h) hs))"
proof -
  have "for_each (\<lambda>h. bind (getitem m h) (\<lambda>w. Inr (str_ljust w h))) hs
          = Inr (map (\<lambda>h. str_ljust (w h) h) hs)"
    by (rule for_each_Inr) (simp add: assms getitem_def bind_def)
  then show ?thesis by (simp add: format_header_def bind_def)
qed

lemma format_row_eq:
  assumes "\<And>h. h \<in> set hs \<Longrightarrow> m h = Some (w h)"
    and "\<And>h. h \<in> set hs \<Longrightarrow> row h = Some (c h)"
  shows "format_row m hs row = Inr (str_join ''  '' (map (\<lambda>h. str_ljust (w h) (c h)) hs))"
proof -
  have "for_each (\<lambda>h. bind (getitem row h) (\<lambda>v. bind (getitem m h) (\<lambda>w. Inr (str_ljust w v)))) hs
          = Inr (map (\<lambda>h. str_ljust (w h) (c h)) hs)"
    by (rule for_each_Inr) (simp add: assms getitem_def bind_def)
  then show ?thesis by (simp add: format_row_def bind_def)
qed

lemma print_rows_eq:
  assumes "\<And>row. row \<in> set rows \<Longrightarrow> format_row m hs row = Inr (line row)"
  shows "print_rows m hs rows out = \<lparr>stdout = out @ map line rows, raised = None\<rparr>"
  using assms by (induction rows arbitrary: out) simp_all

lemma print_report_eq:
  assumes "ps \<noteq> []"
  shows "print_report ps show_inactive =
           \<lparr>stdout = table_line show_inactive ps (\<lambda>h. h)
                     # replicate (length (table_line show_inactive ps (\<lambda>h. h))) (CHR ''-'')
                     # map (\<lambda>p. table_line show_inactive ps (cell show_inactive p)) ps,
            raised = None\<rparr>"
proof -
  let ?hs = "headers show_inactive"
  let ?dd = "map (display_row show_inactive) ps"
  let ?w = "column_width show_inactive ps"
  from col_widths_eq [of ?hs ?dd ?w Map.empty] col_width_eq [OF assms]
  obtain m where m: "col_widths ?hs ?dd Map.empty = Inr m"
    and mh: "\<And>h. h \<in> set ?hs \<Longrightarrow> m h = Some (?w h)"
    by fastforce
  have hdr: "format_header m ?hs = Inr (table_line show_inactive ps (\<lambda>h. h))"
    unfolding table_line_def by (rule format_header_eq) (rule mh)
  have rows: "print_rows m ?hs ?dd out =
        \<lparr>stdout = out @ map (\<lambda>p. table_line show_inactive ps (cell show_inactive p)) ps, raised = None\<rparr>" for out
  proof -
    have "print_rows m ?hs ?dd out =
        \<lparr>stdout = out @ map (\<lambda>row. str_join ''  '' (map (\<lambda>h. str_ljust (?w h) (case row h of None \<Rightarrow> [] | Some v \<Rightarrow> v)) ?hs)) ?dd, raised = None\<rparr>"
    proof (rule print_rows_eq)
      fix row assume "row \<in> set ?dd"
      then obtain p where row: "row = display_row show_inactive p" by auto
      show "format_row m ?hs row = Inr (str_join ''  '' (map (\<lambda>h. str_ljust (?w h) (case row h of None \<Rightarrow> [] | Some v \<Rightarrow> v)) ?hs))"
        by (rule format_row_eq) (simp_all add: mh row display_row_headers)
    qed
    then show ?thesis
      by (simp add: table_line_def cell_def comp_def)
  qed
  show ?thesis
    by (simp add: print_report_def Let_def m hdr rows)
qed

lemma str_join_snoc:
  "xs \<noteq> [] \<Longrightarrow> str_join sep (xs @ [y]) = str_join sep xs @ sep @ y"
  by (induction sep xs rule: str_join.induct) simp_all

lemma length_str_ljust: "length (str_ljust w s) = max w (length s)"
  by (simp add: str_ljust_def)

lemma column_width_ge_header: "length h \<le> column_width show_inactive ps h"
  by (simp add: column_width_def)

lemma column_width_ge_cell:
  "p \<in> set ps \<Longrightarrow> length (cell show_inactive p h) \<le> column_width show_inactive ps h"
  by (simp add: column_width_def Max_ge_iff)

lemma length_ljust_header:
  "length (str_ljust (column_width show_inactive ps h) h) = column_width show_inactive ps h"
  by (simp add: length_str_ljust max_absorb1 column_width_ge_header)

lemma length_ljust_cell:
  "p \<in> set ps \<Longrightarrow>
   length (str_ljust (column_width show_inactive ps h) (cell show_inactive p h))
     = column_width show_inactive ps h"
  by (simp add: length_str_ljust max_absorb1 column_width_ge_cell)

lemma headers_True: "headers True = headers False @ [''inactive'']"
  by (simp add: headers_def)

lemma cell_flag:
  "h \<in> set (headers False) \<Longrightarrow> cell True p h = cell False p h"
  by (auto simp: headers_def cell_def display_row_apply)

lemma cell_inactive: "cell True p ''inactive'' = str_bool (inactive p)"
  by (simp add: cell_def display_row_apply)

lemma column_width_flag:
  "h \<in> set (headers False) \<Longrightarrow> column_width True ps h = column_width False ps h"
  by (simp add: column_width_def cell_flag)

lemma table_line_flag:
  assumes "\<And>h. h \<in> set (headers False) \<Longrightarrow> c h = c' h"
  shows "table_line True ps c =
           table_line False ps c' @ ''  '' @ str_ljust (column_width True ps ''inactive'') (c ''inactive'')"
proof -
  let ?f = "\<lambda>h. str_ljust (column_width True ps h) (c h)"
  let ?g = "\<lambda>h. str_ljust (column_width False ps h) (c' h)"
  have eq: "map ?f (headers False) = map ?g (headers False)"
    by (rule map_cong) (simp_all add: column_width_flag assms)
  have ne: "map ?g (headers False) \<noteq> []"
    by (simp add: headers_def)
  have "table_line True ps c = str_join ''  '' (map ?g (headers False) @ [?f ''inactive''])"
    unfolding table_line_def headers_True map_append eq by simp
  also have "\<dots> = str_join ''  '' (map ?g (headers False)) @ ''  '' @ ?f ''inactive''"
    using ne by (rule str_join_snoc)
  finally show ?thesis
    unfolding table_line_def .
qed

text \<open>
  C6: for a non-empty record list \<open>print_report\<close> succeeds and prints the header line,
  the dashes and one line per record in the order of the list; every line is the cells
  of the columns, each left-justified to its column's width, joined by two spaces. The
  width of a column is the maximum of the lengths of its header and of its cells, and
  every padded header and cell has exactly that length. With the flag the columns are
  those without the flag followed by \<open>inactive\<close>; the other columns keep their widths
  and cells, and each line printed with the flag is the line printed without it followed
  by two spaces and the padded \<open>inactive\<close> cell (the dashes grow by as much).
\<close>

theorem report_layout:
  assumes "ps \<noteq> []"
  shows "print_report ps show_inactive =
           \<lparr>stdout = table_line show_inactive ps (\<lambda>h. h)
                     # replicate (length (table_line show_inactive ps (\<lambda>h. h))) (CHR ''-'')
                     # map (\<lambda>p. table_line show_inactive ps (cell show_inactive p)) ps,
            raised = None\<rparr> \<and>
         (\<forall>h\<in>set (headers show_inactive).
            column_width show_inactive ps h =
              Max (insert (length h) ((\<lambda>p. length (cell show_inactive p h)) ` set ps)) \<and>
            length (str_ljust (column_width show_inactive ps h) h) = column_width show_inactive ps h \<and>
            (\<forall>p\<in>set ps.
               display_row show_inactive p h = Some (cell show_inactive p h) \<and>
               length (str_ljust (column_width show_inactive ps h) (cell show_inactive p h))
                 = column_width show_inactive ps h)) \<and>
         headers True = headers False @ [''inactive''] \<and>
         (\<forall>h\<in>set (headers False).
            column_width True ps h = column_width False ps h \<and>
            (\<forall>p. cell True p h = cell False p h)) \<and>
         stdout (print_report ps True) =
           (hd (stdout (print_report ps False)) @ ''  ''
              @ str_ljust (column_width True ps ''inactive'') ''inactive'')
           # replicate (length (hd (stdout (print_report ps False))) + 2
                          + column_width True ps ''inactive'') (CHR ''-'')
           # map2 (\<lambda>line p. line @ ''  ''
                      @ str_ljust (column_width True ps ''inactive'') (str_bool (inactive p)))
                  (drop 2 (stdout (print_report ps False))) ps"
proof -
  let ?w = "column_width True ps ''inactive''"
  have widths: "\<forall>h\<in>set (headers show_inactive).
            column_width show_inactive ps h =
              Max (insert (length h) ((\<lambda>p. length (cell show_inactive p h)) ` set ps)) \<and>
            length (str_ljust (column_width show_inactive ps h) h) = column_width show_inactive ps h \<and>
            (\<forall>p\<in>set ps.
               display_row show_inactive p h = Some (cell show_inactive p h) \<and>
               length (str_ljust (column_width show_inactive ps h) (cell show_inactive p h))
                 = column_width show_inactive ps h)"
  proof (intro ballI conjI)
    fix h
    assume h: "h \<in> set (headers show_inactive)"
    show "column_width show_inactive ps h =
            Max (insert (length h) ((\<lambda>p. length (cell show_inactive p h)) ` set ps))"
      by (simp only: column_width_def)
    show "length (str_ljust (column_width show_inactive ps h) h) = column_width show_inactive ps h"
      by (rule length_ljust_header)
    fix p
    assume p: "p \<in> set ps"
    show "display_row show_inactive p h = Some (cell show_inactive p h)"
      using h by (rule display_row_headers)
    show "length (str_ljust (column_width show_inactive ps h) (cell show_inactive p h))
            = column_width show_inactive ps h"
      using p by (rule length_ljust_cell)
  qed
  have flag: "\<forall>h\<in>set (headers False).
            column_width True ps h = column_width False ps h \<and>
            (\<forall>p. cell True p h = cell False p h)"
    by (simp add: column_width_flag cell_flag)
  have hdr: "table_line True ps (\<lambda>h. h) = table_line False ps (\<lambda>h. h) @ ''  '' @ str_ljust ?w ''inactive''"
    by (rule table_line_flag) simp
  have row: "table_line True ps (cell True p)
      = table_line False ps (cell False p) @ ''  '' @ str_ljust ?w (str_bool (inactive p))" for p
    using table_line_flag [of "cell True p" "cell False p" ps] by (simp add: cell_flag cell_inactive)
  have m2: "map2 f (map g ps) ps = map (\<lambda>p. f (g p) p) ps" for f :: "string \<Rightarrow> project_aug \<Rightarrow> string" and g
    by (induction ps) simp_all
  have out: "stdout (print_report ps True) =
           (hd (stdout (print_report ps False)) @ ''  '' @ str_ljust ?w ''inactive'')
           # replicate (length (hd (stdout (print_report ps False))) + 2 + ?w) (CHR ''-'')
           # map2 (\<lambda>line p. line @ ''  '' @ str_ljust ?w (str_bool (inactive p)))
                  (drop 2 (stdout (print_report ps False))) ps"
    unfolding print_report_eq [OF assms] by (simp add: hdr row m2 length_ljust_header)
  from print_report_eq [OF assms] widths headers_True flag out show ?thesis by blast
qed

lemma scenario_printed:
  "stdout (print_report scenario_records True) =
     [''display_name  owners      create_date  project_id  inactive'',
      ''-----------------------------------------------------------'',
      ''P2            -           2021-06-15   P2          True    '',
      ''P3            bob, carol  2019-03-03   P3          False   '',
      ''P1            alice       2020-01-01   P1          False   '']"
  "stdout (print_report scenario_records False) =
     [''display_name  owners      create_date  project_id'',
      ''-------------------------------------------------'',
      ''P2            -           2021-06-15   P2        '',
      ''P3            bob, carol  2019-03-03   P3        '',
      ''P1            alice       2020-01-01   P1        '']"
  by (simp_all add: scenario_records_eval print_report_def headers_def col_width_def bind_def
      display_row_def getitem_def owners_str_def format_header_def format_row_def str_ljust_def
      str_bool_def)

theorem report_layout_witness:
  "scenario_records \<noteq> [] \<and>
   raised (print_report scenario_records True) = None \<and>
   column_width True scenario_records ''owners'' = 10 \<and>
   column_width False scenario_records ''owners'' = 10 \<and>
   stdout (print_report scenario_records True) =
     [''display_name  owners      create_date  project_id  inactive'',
      ''-----------------------------------------------------------'',
      ''P2            -           2021-06-15   P2          True    '',
      ''P3            bob, carol  2019-03-03   P3          False   '',
      ''P1            alice       2020-01-01   P1          False   ''] \<and>
   stdout (print_report scenario_records False) =
     [''display_name  owners      create_date  project_id'',
      ''-------------------------------------------------'',
      ''P2            -           2021-06-15   P2        '',
      ''P3            bob, carol  2019-03-03   P3        '',
      ''P1            alice       2020-01-01   P1        '']"
proof -
  have h: "scenario_records \<noteq> []"
    by (simp add: scenario_records_eval)
  have o: "''owners'' \<in> set (headers True)" "''owners'' \<in> set (headers False)"
    by (simp_all add: headers_def)
  have m: "Max (insert (length ''owners'')
             ((\<lambda>p. length (cell True p ''owners'')) ` set scenario_records)) = 10"
    by (simp add: scenario_records_eval cell_def display_row_apply owners_str_def)
  from report_layout [OF h, of True] o m
  have "raised (print_report scenario_records True) = None \<and>
        column_width True scenario_records ''owners'' = 10 \<and>
        column_width False scenario_records ''owners'' = 10"
    by fastforce
  with h scenario_printed show ?thesis by simp
qed

end
